theory Spec2Isabelle
  imports Main
begin

section \<open>The extension registry of envisage\<close>

text \<open>
  This theory embeds \<^verbatim>\<open>envisage/extension_registry.py\<close> (class
  \<^verbatim>\<open>ExtensionRegistry\<close>) and the cached extension point value of
  \<^verbatim>\<open>envisage/extension_point.py\<close> (class \<^verbatim>\<open>_ExtensionPointValue\<close> and the
  module function \<^verbatim>\<open>_get_extensions\<close>).

  Python identifiers that start with an underscore lose it; where that makes two names
  collide, the protected method of the registry is prefixed \<open>protected_\<close> and the module
  function of \<^verbatim>\<open>extension_point.py\<close> is prefixed \<open>ep_\<close>.
\<close>

subsection \<open>Python objects: list objects, exceptions, outcomes\<close>

text \<open>
  The registry stores the very list object its caller hands to \<^verbatim>\<open>set_extensions\<close>, and
  \<^verbatim>\<open>get_extensions\<close> returns a copy (\<^verbatim>\<open>[:]\<close>). To tell a list object from a list
  that merely has equal elements, list objects live in a heap: an address is an index
  into the sequence of all list objects created so far, and a new object is appended.
  Objects are never freed.
\<close>

type_synonym addr = nat

datatype 'i error =
    UnknownExtensionPoint 'i
  | ValueError
  | IndexError
  | AttributeError

text \<open>
  A Python call either returns a value or raises. Every operation returns the state it
  leaves behind together with its outcome, so that what a raising call did to the state
  before it raised stays visible.
\<close>

datatype ('i, 'r) outcome = Return 'r | Raise "'i error"

text \<open>
  Modelled from the spec: \<^verbatim>\<open>ExtensionPointChangedEvent\<close> is constructed by the registry
  but its module (\<^verbatim>\<open>extension_point_changed_event.py\<close>) is not among the sources. The
  spec describes the event as
  \<^verbatim>\<open>{extension_point_id, added: sequence, removed: sequence, index: optional(int | range)}\<close>;
  the registry only ever passes \<^verbatim>\<open>None\<close> or an integer for the index. The fields
  \<open>added\<close> and \<open>removed\<close> hold references to list objects, as the constructor call
  passes them.
\<close>

record 'i event =
  extension_point_id :: 'i
  added :: addr
  removed :: addr
  index :: "int option"

text \<open>
  An extension point as the registry sees it: \<^verbatim>\<open>add_extension_point\<close> reads nothing but
  its \<^verbatim>\<open>id\<close>.
\<close>

record 'i extension_point =
  ep_id :: 'i
  desc :: string

subsection \<open>The state\<close>

text \<open>
  The three dictionaries of the registry, and what surrounds them:
  \<^item> \<open>heap\<close>: the list objects;
  \<^item> \<open>extensions\<close>: \<^verbatim>\<open>self._extensions\<close>, from an extension point id to the stored list
    object;
  \<^item> \<open>extension_points\<close>: \<^verbatim>\<open>self._extension_points\<close>;
  \<^item> \<open>listeners\<close>: \<^verbatim>\<open>self._listeners\<close>, from an id or \<^verbatim>\<open>None\<close> (every extension
    point) to the weak references in the order they were appended. A weak reference made
    by \<^verbatim>\<open>_saferef\<close> is represented by the identity \<open>'l\<close> of the listener it refers to;
  \<^item> \<open>alive\<close>: whether the weak reference to a listener still resolves (\<^verbatim>\<open>ref()\<close> is
    not \<^verbatim>\<open>None\<close>);
  \<^item> \<open>calls\<close>: the calls \<^verbatim>\<open>listener(self, event)\<close> made so far, in order. A listener is
    an opaque callable: the model records that it was called and with which event, as
    the recording listeners of the test suite do. What the body of a listener does, to
    the registry or to anything else, is outside the model;
  \<^item> \<open>warnings\<close>: the messages passed to \<^verbatim>\<open>warnings.warn\<close> so far.
\<close>

record ('i, 'a, 'l) state =
  heap :: "'a list list"
  extensions :: "'i \<rightharpoonup> addr"
  extension_points :: "'i \<rightharpoonup> 'i extension_point"
  listeners :: "'i option \<rightharpoonup> 'l list"
  alive :: "'l \<Rightarrow> bool"
  calls :: "('l \<times> 'i event) list"
  warnings :: "string list"

text \<open>A new list object with the given elements; its address is the next free one.\<close>

definition alloc :: "'a list \<Rightarrow> ('i, 'a, 'l) state \<Rightarrow> addr \<times> ('i, 'a, 'l) state" where
  "alloc xs s = (length (heap s), s\<lparr>heap := heap s @ [xs]\<rparr>)"

text \<open>\<^verbatim>\<open>d.get(k, [])\<close> on a dictionary of lists.\<close>

definition get_or_empty :: "('k \<rightharpoonup> 'v list) \<Rightarrow> 'k \<Rightarrow> 'v list" where
  "get_or_empty d k = (case d k of None \<Rightarrow> [] | Some v \<Rightarrow> v)"

subsection \<open>Protected interface of the registry\<close>

text \<open>
  \<^verbatim>\<open>_check_extension_point\<close>: raise \<^verbatim>\<open>UnknownExtensionPoint\<close> unless the id is a key of
  \<^verbatim>\<open>_extension_points\<close>.
\<close>

definition check_extension_point ::
  "'i \<Rightarrow> ('i, 'a, 'l) state \<Rightarrow> ('i, unit) outcome \<times> ('i, 'a, 'l) state" where
  "check_extension_point i s =
     (if i \<notin> dom (extension_points s) then (Raise (UnknownExtensionPoint i), s)
      else (Return (), s))"

text \<open>
  \<^verbatim>\<open>_get_extensions\<close>: \<^verbatim>\<open>self._extensions.setdefault(extension_point_id, [])\<close>. For an
  id that is not a key yet, a new empty list is created and stored.
\<close>

definition protected_get_extensions ::
  "'i \<Rightarrow> ('i, 'a, 'l) state \<Rightarrow> addr \<times> ('i, 'a, 'l) state" where
  "protected_get_extensions i s =
     (case extensions s i of
        Some a \<Rightarrow> (a, s)
      | None \<Rightarrow>
          (let (a, s1) = alloc [] s
           in (a, s1\<lparr>extensions := (extensions s1)(i \<mapsto> a)\<rparr>)))"

text \<open>
  \<^verbatim>\<open>_get_listener_refs\<close>: the references registered for the id first, then those
  registered for \<^verbatim>\<open>None\<close>.
\<close>

definition get_listener_refs :: "'i \<Rightarrow> ('i, 'a, 'l) state \<Rightarrow> 'l list" where
  "get_listener_refs i s =
     get_or_empty (listeners s) (Some i) @ get_or_empty (listeners s) None"

text \<open>
  \<^verbatim>\<open>_call_listeners\<close>: build the event, then for each reference in turn resolve it and
  call the listener when it is still there.
\<close>

fun call_each :: "'l list \<Rightarrow> 'i event \<Rightarrow> ('i, 'a, 'l) state \<Rightarrow> ('i, 'a, 'l) state" where
  "call_each [] ev s = s"
| "call_each (r # refs) ev s =
     call_each refs ev (if alive s r then s\<lparr>calls := calls s @ [(r, ev)]\<rparr> else s)"

definition call_listeners ::
  "'l list \<Rightarrow> 'i \<Rightarrow> addr \<Rightarrow> addr \<Rightarrow> int option \<Rightarrow> ('i, 'a, 'l) state \<Rightarrow> ('i, 'a, 'l) state" where
  "call_listeners refs i added' removed' index' s =
     call_each refs
       \<lparr>extension_point_id = i, added = added', removed = removed', index = index'\<rparr> s"

subsection \<open>The \<^verbatim>\<open>IExtensionRegistry\<close> interface\<close>

text \<open>
  \<^verbatim>\<open>add_extension_point_listener(listener, extension_point_id=None)\<close>:
  \<^verbatim>\<open>setdefault\<close> on the listener table, then append the weak reference.
\<close>

definition add_extension_point_listener ::
  "'l \<Rightarrow> 'i option \<Rightarrow> ('i, 'a, 'l) state \<Rightarrow> ('i, unit) outcome \<times> ('i, 'a, 'l) state" where
  "add_extension_point_listener l k s =
     (Return (), s\<lparr>listeners := (listeners s)(k \<mapsto> get_or_empty (listeners s) k @ [l])\<rparr>)"

text \<open>\<^verbatim>\<open>add_extension_point\<close>: store the extension point under its id.\<close>

definition add_extension_point ::
  "'i extension_point \<Rightarrow> ('i, 'a, 'l) state \<Rightarrow> ('i, unit) outcome \<times> ('i, 'a, 'l) state" where
  "add_extension_point d s =
     (Return (), s\<lparr>extension_points := (extension_points s)(ep_id d \<mapsto> d)\<rparr>)"

text \<open>
  \<^verbatim>\<open>get_extensions\<close>: \<^verbatim>\<open>self._get_extensions(extension_point_id)[:]\<close>, a new list object
  with the elements of the stored one.
\<close>

definition get_extensions ::
  "'i \<Rightarrow> ('i, 'a, 'l) state \<Rightarrow> ('i, addr) outcome \<times> ('i, 'a, 'l) state" where
  "get_extensions i s =
     (let (a, s1) = protected_get_extensions i s;
          (r, s2) = alloc (heap s1 ! a) s1
      in (Return r, s2))"

text \<open>\<^verbatim>\<open>get_extension_point\<close>: \<^verbatim>\<open>self._extension_points.get(extension_point_id)\<close>.\<close>

definition get_extension_point ::
  "'i \<Rightarrow> ('i, 'a, 'l) state \<Rightarrow> 'i extension_point option" where
  "get_extension_point i s = extension_points s i"

text \<open>
  \<^verbatim>\<open>remove_extension_point_listener\<close>: \<^verbatim>\<open>setdefault\<close> on the listener table, then
  \<^verbatim>\<open>list.remove\<close>, which deletes the first entry equal to the reference and raises
  \<^verbatim>\<open>ValueError\<close> when there is none. The \<^verbatim>\<open>setdefault\<close> has already happened when it
  raises.
\<close>

definition remove_extension_point_listener ::
  "'l \<Rightarrow> 'i option \<Rightarrow> ('i, 'a, 'l) state \<Rightarrow> ('i, unit) outcome \<times> ('i, 'a, 'l) state" where
  "remove_extension_point_listener l k s =
     (let ls = get_or_empty (listeners s) k;
          s1 = s\<lparr>listeners := (listeners s)(k \<mapsto> ls)\<rparr>
      in if l \<in> set ls
         then (Return (), s1\<lparr>listeners := (listeners s1)(k \<mapsto> remove1 l ls)\<rparr>)
         else (Raise ValueError, s1))"

text \<open>
  \<^verbatim>\<open>remove_extension_point\<close>: check, delete the extension point, delete its stored list
  (or take a new empty list as the old value), collect the references, call the
  listeners with a new empty list as \<^verbatim>\<open>added\<close>, the old list as \<^verbatim>\<open>removed\<close> and the
  index \<^verbatim>\<open>0\<close>.
\<close>

definition remove_extension_point ::
  "'i \<Rightarrow> ('i, 'a, 'l) state \<Rightarrow> ('i, unit) outcome \<times> ('i, 'a, 'l) state" where
  "remove_extension_point i s =
     (case check_extension_point i s of
        (Raise e, s1) \<Rightarrow> (Raise e, s1)
      | (Return _, s1) \<Rightarrow>
          (let s2 = s1\<lparr>extension_points := (extension_points s1)(i := None)\<rparr>;
               (old, s3) =
                 (case extensions s2 i of
                    Some a \<Rightarrow> (a, s2\<lparr>extensions := (extensions s2)(i := None)\<rparr>)
                  | None \<Rightarrow> alloc [] s2);
               refs = get_listener_refs i s3;
               (new, s4) = alloc [] s3
           in (Return (), call_listeners refs i new old (Some 0) s4)))"

text \<open>
  \<^verbatim>\<open>set_extensions\<close>: check, read the old list (through \<^verbatim>\<open>setdefault\<close>), store the
  caller's list object itself, collect the references, call the listeners with the
  caller's list as \<^verbatim>\<open>added\<close>, the old list as \<^verbatim>\<open>removed\<close> and the index \<^verbatim>\<open>None\<close>.
\<close>

definition set_extensions ::
  "'i \<Rightarrow> addr \<Rightarrow> ('i, 'a, 'l) state \<Rightarrow> ('i, unit) outcome \<times> ('i, 'a, 'l) state" where
  "set_extensions i exts s =
     (case check_extension_point i s of
        (Raise e, s1) \<Rightarrow> (Raise e, s1)
      | (Return _, s1) \<Rightarrow>
          (let (old, s2) = protected_get_extensions i s1;
               s3 = s2\<lparr>extensions := (extensions s2)(i \<mapsto> exts)\<rparr>;
               refs = get_listener_refs i s3
           in (Return (), call_listeners refs i exts old None s3)))"

text \<open>
  The list the registry currently holds for an id, as a value: the elements of the stored
  list object, or no elements when nothing is stored. This is what \<^verbatim>\<open>get_extensions\<close>
  copies.
\<close>

definition stored :: "('i, 'a, 'l) state \<Rightarrow> 'i \<Rightarrow> 'a list" where
  "stored s i = (case extensions s i of None \<Rightarrow> [] | Some a \<Rightarrow> heap s ! a)"

text \<open>
  A registry as its constructor leaves it: the three dictionaries are empty. No list
  object exists yet and nothing has been called or warned about.
\<close>

definition empty_registry :: "('l \<Rightarrow> bool) \<Rightarrow> ('i, 'a, 'l) state" where
  "empty_registry al =
     \<lparr>heap = [], extensions = Map.empty, extension_points = Map.empty,
      listeners = Map.empty, alive = al, calls = [], warnings = []\<rparr>"

section \<open>The cached value of an extension point trait\<close>

subsection \<open>Indexing a Python list\<close>

text \<open>
  A key is an integer or a slice \<^verbatim>\<open>start:stop\<close> (either bound may be omitted; slices
  with a step are left out). Indexing with an integer gives an element, with a slice a new
  list. Negative integers count from the end; an integer out of range raises
  \<^verbatim>\<open>IndexError\<close>; slice bounds are clamped to the list.
\<close>

datatype key = Index int | Slice "int option" "int option"

datatype 'a selected = Item 'a | Items "'a list"

definition slice_bound :: "int \<Rightarrow> int option \<Rightarrow> int \<Rightarrow> int" where
  "slice_bound n b dflt =
     (case b of
        None \<Rightarrow> dflt
      | Some j \<Rightarrow>
          (let j' = (if j < 0 then j + n else j)
           in if j' < 0 then 0 else if n \<le> j' then n else j'))"

definition list_getitem :: "'a list \<Rightarrow> key \<Rightarrow> ('i, 'a selected) outcome" where
  "list_getitem xs k =
     (let n = int (length xs)
      in case k of
           Index j \<Rightarrow>
             (let j' = (if j < 0 then j + n else j)
              in if 0 \<le> j' \<and> j' < n then Return (Item (xs ! nat j')) else Raise IndexError)
         | Slice a b \<Rightarrow>
             (let start = slice_bound n a 0; stop = slice_bound n b n
              in Return (Items (take (nat (stop - start)) (drop (nat start) xs)))))"

subsection \<open>The object that owns the trait\<close>

text \<open>
  Of the \<^verbatim>\<open>HasTraits\<close> object the code reads two things: the extension point behind a
  trait name (\<^verbatim>\<open>object.trait(name).trait_type\<close>, of which only the \<^verbatim>\<open>id\<close> is used),
  and its \<^verbatim>\<open>extension_registry\<close> attribute. There is one registry, the one in the state;
  \<open>has_extension_registry\<close> says whether the attribute refers to it or is \<^verbatim>\<open>None\<close>.
  A name that is no trait of the object makes \<^verbatim>\<open>object.trait(name)\<close> \<^verbatim>\<open>None\<close> and the
  attribute access on it raise \<^verbatim>\<open>AttributeError\<close>.
\<close>

record 'i has_traits =
  trait_id :: "string \<rightharpoonup> 'i"
  has_extension_registry :: bool

text \<open>
  \<^verbatim>\<open>_get_extensions(object, name)\<close> of \<^verbatim>\<open>extension_point.py\<close>, with
  \<^verbatim>\<open>ExtensionPoint._get_extension_registry\<close> (which raises \<^verbatim>\<open>ValueError\<close> when the
  object has no registry) written out.
\<close>

definition ep_get_extensions ::
  "'i has_traits \<Rightarrow> string \<Rightarrow> ('i, 'a, 'l) state \<Rightarrow> ('i, addr) outcome \<times> ('i, 'a, 'l) state" where
  "ep_get_extensions obj nm s =
     (case trait_id obj nm of
        None \<Rightarrow> (Raise AttributeError, s)
      | Some i \<Rightarrow>
          if \<not> has_extension_registry obj then (Raise ValueError, s)
          else get_extensions i s)"

subsection \<open>The class \<^verbatim>\<open>_ExtensionPointValue\<close>\<close>

text \<open>
  The value is a list (a \<^verbatim>\<open>TraitList\<close>): \<open>items\<close> is what the list itself holds, the
  backing store. \<open>internal_use\<close>, \<open>object\<close> and \<open>name\<close> are the attributes
  \<^verbatim>\<open>_internal_use\<close>, \<^verbatim>\<open>_object\<close> and \<^verbatim>\<open>_name\<close>.
\<close>

record ('i, 'a) extension_point_value =
  items :: "'a list"
  internal_use :: bool
  object :: "'i has_traits"
  name :: string

text \<open>
  \<^verbatim>\<open>ExtensionPoint._update_cache\<close> builds the cached value: a new
  \<^verbatim>\<open>_ExtensionPointValue\<close> holding the elements the registry reports, with the flag
  off (\<^verbatim>\<open>__init__\<close>) and the references set (\<^verbatim>\<open>_set_reference\<close>). Storing it in the
  object's dictionary and firing the trait change are left to the traits framework; the
  model returns the new value.
\<close>

definition update_cache ::
  "'i has_traits \<Rightarrow> string \<Rightarrow> ('i, 'a, 'l) state \<Rightarrow>
     ('i, ('i, 'a) extension_point_value) outcome \<times> ('i, 'a, 'l) state" where
  "update_cache obj nm s =
     (case ep_get_extensions obj nm s of
        (Raise e, s1) \<Rightarrow> (Raise e, s1)
      | (Return a, s1) \<Rightarrow>
          (Return \<lparr>items = heap s1 ! a, internal_use = False, object = obj, name = nm\<rparr>, s1))"

text \<open>
  \<^verbatim>\<open>__eq__\<close>, \<^verbatim>\<open>__getitem__\<close>, \<^verbatim>\<open>__len__\<close>: with the flag on, the list's own
  method on the backing store; otherwise the same operation on what
  \<^verbatim>\<open>_get_extensions(self._object, self._name)\<close> returns. The other operand of
  \<^verbatim>\<open>__eq__\<close> is a plain list.
\<close>

definition view_eq ::
  "('i, 'a) extension_point_value \<Rightarrow> 'a list \<Rightarrow> ('i, 'a, 'l) state \<Rightarrow>
     ('i, bool) outcome \<times> ('i, 'a, 'l) state" where
  "view_eq v other s =
     (if internal_use v then (Return (items v = other), s)
      else case ep_get_extensions (object v) (name v) s of
             (Raise e, s1) \<Rightarrow> (Raise e, s1)
           | (Return a, s1) \<Rightarrow> (Return (heap s1 ! a = other), s1))"

definition view_getitem ::
  "('i, 'a) extension_point_value \<Rightarrow> key \<Rightarrow> ('i, 'a, 'l) state \<Rightarrow>
     ('i, 'a selected) outcome \<times> ('i, 'a, 'l) state" where
  "view_getitem v k s =
     (if internal_use v then (list_getitem (items v) k, s)
      else case ep_get_extensions (object v) (name v) s of
             (Raise e, s1) \<Rightarrow> (Raise e, s1)
           | (Return a, s1) \<Rightarrow> (list_getitem (heap s1 ! a) k, s1))"

definition view_len ::
  "('i, 'a) extension_point_value \<Rightarrow> ('i, 'a, 'l) state \<Rightarrow>
     ('i, nat) outcome \<times> ('i, 'a, 'l) state" where
  "view_len v s =
     (if internal_use v then (Return (length (items v)), s)
      else case ep_get_extensions (object v) (name v) s of
             (Raise e, s1) \<Rightarrow> (Raise e, s1)
           | (Return a, s1) \<Rightarrow> (Return (length (heap s1 ! a)), s1))"

text \<open>
  \<^verbatim>\<open>_internal_sync\<close>: the body runs with the flag on, and the flag is off again
  afterwards whatever the body did.
\<close>

definition internal_sync ::
  "(('i, 'a) extension_point_value \<Rightarrow> ('i, 'a, 'l) state \<Rightarrow>
      ('i, 'r) outcome \<times> ('i, 'a) extension_point_value \<times> ('i, 'a, 'l) state) \<Rightarrow>
   ('i, 'a) extension_point_value \<Rightarrow> ('i, 'a, 'l) state \<Rightarrow>
     ('i, 'r) outcome \<times> ('i, 'a) extension_point_value \<times> ('i, 'a, 'l) state" where
  "internal_sync body v s =
     (let (r, v1, s1) = body (v\<lparr>internal_use := True\<rparr>) s
      in (r, v1\<lparr>internal_use := False\<rparr>, s1))"

text \<open>
  The warning every rejected mutation issues:
  \<^verbatim>\<open>warnings.warn("Extension point cannot be mutated directly.", RuntimeWarning, stacklevel=2)\<close>.
  The warning is recorded and the call goes on, as under Python's default warning
  filters (a filter that turns warnings into errors is a setting of the interpreter, not
  of this code).
\<close>

definition warn :: "('i, 'a, 'l) state \<Rightarrow> ('i, 'a, 'l) state" where
  "warn s = s\<lparr>warnings := warnings s @ [''Extension point cannot be mutated directly.'']\<rparr>"

text \<open>
  The mutating methods return the outcome, the value as the call leaves it, and the
  state. \<^verbatim>\<open>__delitem__\<close> and \<^verbatim>\<open>__setitem__\<close> warn and return when the flag is off and
  call \<^verbatim>\<open>TraitList\<close>'s method otherwise; that method belongs to the traits library and
  is a parameter here (\<open>super_delitem\<close>, \<open>super_setitem\<close>).
\<close>

type_synonym ('i, 'a, 'l, 'r) mutator =
  "('i, 'a) extension_point_value \<Rightarrow> ('i, 'a, 'l) state \<Rightarrow>
     ('i, 'r) outcome \<times> ('i, 'a) extension_point_value \<times> ('i, 'a, 'l) state"

definition view_delitem ::
  "(key \<Rightarrow> ('i, 'a, 'l, unit) mutator) \<Rightarrow> key \<Rightarrow> ('i, 'a, 'l, unit) mutator" where
  "view_delitem super_delitem k v s =
     (if \<not> internal_use v then (Return (), v, warn s) else super_delitem k v s)"

definition view_setitem ::
  "(key \<Rightarrow> 'a selected \<Rightarrow> ('i, 'a, 'l, unit) mutator) \<Rightarrow>
   key \<Rightarrow> 'a selected \<Rightarrow> ('i, 'a, 'l, unit) mutator" where
  "view_setitem super_setitem k x v s =
     (if \<not> internal_use v then (Return (), v, warn s) else super_setitem k x v s)"

text \<open>
  \<^verbatim>\<open>__iadd__\<close> and \<^verbatim>\<open>__imul__\<close> warn and return \<^verbatim>\<open>self[:]\<close>, which goes through
  \<^verbatim>\<open>__getitem__\<close> above.
\<close>

definition view_iadd :: "'a list \<Rightarrow> ('i, 'a, 'l, 'a selected) mutator" where
  "view_iadd val v s =
     (case view_getitem v (Slice None None) (warn s) of (r, s1) \<Rightarrow> (r, v, s1))"

definition view_imul :: "int \<Rightarrow> ('i, 'a, 'l, 'a selected) mutator" where
  "view_imul val v s =
     (case view_getitem v (Slice None None) (warn s) of (r, s1) \<Rightarrow> (r, v, s1))"

text \<open>
  \<^verbatim>\<open>append\<close>, \<^verbatim>\<open>clear\<close>, \<^verbatim>\<open>extend\<close>, \<^verbatim>\<open>insert\<close>, \<^verbatim>\<open>pop\<close>, \<^verbatim>\<open>remove\<close>: the
  body is the warning and nothing else, whatever the flag; each returns \<^verbatim>\<open>None\<close>.
\<close>

definition view_append :: "'a \<Rightarrow> ('i, 'a, 'l, unit) mutator" where
  "view_append x v s = (Return (), v, warn s)"

definition view_clear :: "('i, 'a, 'l, unit) mutator" where
  "view_clear v s = (Return (), v, warn s)"

definition view_extend :: "'a list \<Rightarrow> ('i, 'a, 'l, unit) mutator" where
  "view_extend xs v s = (Return (), v, warn s)"

definition view_insert :: "int \<Rightarrow> 'a \<Rightarrow> ('i, 'a, 'l, unit) mutator" where
  "view_insert j x v s = (Return (), v, warn s)"

definition view_pop :: "int \<Rightarrow> ('i, 'a, 'l, unit) mutator" where
  "view_pop j v s = (Return (), v, warn s)"

definition view_remove :: "'a \<Rightarrow> ('i, 'a, 'l, unit) mutator" where
  "view_remove x v s = (Return (), v, warn s)"

section \<open>Reachable states\<close>

text \<open>
  A state is valid when every stored address is that of a list object that exists. In
  Python a reference always refers to an object; in the model this is a condition on the
  state, and every state the operations produce from an empty registry meets it.
\<close>

definition valid :: "('i, 'a, 'l) state \<Rightarrow> bool" where
  "valid s = (\<forall>j b. extensions s j = Some b \<longrightarrow> b < length (heap s))"

text \<open>
  The list objects a client of the registry can get hold of are those it created itself,
  those \<^verbatim>\<open>get_extensions\<close> returned to it and those that listeners were handed in an
  event. \<open>seen\<close> collects the latter from the calls made so far.
\<close>

definition seen :: "('l \<times> 'i event) list \<Rightarrow> addr set" where
  "seen cs = set (concat (map (\<lambda>c. [added (snd c), removed (snd c)]) cs))"

text \<open>
  \<open>reach K s\<close>: the state \<open>s\<close> comes from an empty registry by calls of the public
  interface, and \<open>K\<close> are the list objects the clients hold a reference to. Between
  calls a client may create a list, change a list it holds in any way, and any listener
  may die; \<^verbatim>\<open>set_extensions\<close> is called with a list the client holds. The empty list
  that \<^verbatim>\<open>setdefault\<close> creates inside \<^verbatim>\<open>_get_extensions\<close> is not handed out until
  \<^verbatim>\<open>set_extensions\<close> or \<^verbatim>\<open>remove_extension_point\<close> passes it to listeners as the old
  value.
\<close>

inductive reach :: "addr set \<Rightarrow> ('i, 'a, 'l) state \<Rightarrow> bool" where
  reach_init: "reach {} (empty_registry al)"
| reach_new_list: "reach K s \<Longrightarrow> reach (insert (fst (alloc xs s)) K) (snd (alloc xs s))"
| reach_mutate_list: "reach K s \<Longrightarrow> a \<in> K \<Longrightarrow> reach K (s\<lparr>heap := (heap s)[a := xs]\<rparr>)"
| reach_alive: "reach K s \<Longrightarrow> reach K (s\<lparr>alive := al\<rparr>)"
| reach_warn: "reach K s \<Longrightarrow> reach K (warn s)"
| reach_add_listener: "reach K s \<Longrightarrow> reach K (snd (add_extension_point_listener l k s))"
| reach_remove_listener: "reach K s \<Longrightarrow> reach K (snd (remove_extension_point_listener l k s))"
| reach_add: "reach K s \<Longrightarrow> reach K (snd (add_extension_point d s))"
| reach_get: "reach K s \<Longrightarrow> get_extensions i s = (Return r, s') \<Longrightarrow> reach (insert r K) s'"
| reach_set: "reach K s \<Longrightarrow> a \<in> K \<Longrightarrow> reach (K \<union> seen (calls (snd (set_extensions i a s)))) (snd (set_extensions i a s))"
| reach_remove: "reach K s \<Longrightarrow> reach (K \<union> seen (calls (snd (remove_extension_point i s)))) (snd (remove_extension_point i s))"

text \<open>
  The invariant of reachable states: stored addresses and held addresses exist; the list
  stored for an id that is not an extension point is empty and no client holds it; a
  stored list no client holds is stored under one id only; and what listeners were
  handed is held.
\<close>

definition private_inv :: "addr set \<Rightarrow> ('i, 'a, 'l) state \<Rightarrow> bool" where
  "private_inv K s =
     (valid s \<and>
      (\<forall>a \<in> K. a < length (heap s)) \<and>
      (\<forall>j b. extensions s j = Some b \<and> extension_points s j = None \<longrightarrow> heap s ! b = [] \<and> b \<notin> K) \<and>
      (\<forall>j j' b. extensions s j = Some b \<and> extensions s j' = Some b \<and> b \<notin> K \<longrightarrow> j = j') \<and>
      seen (calls s) \<subseteq> K)"

section \<open>What a rejected mutation leaves behind\<close>

text \<open>
  \<open>rejected res v s\<close> says of the result \<open>res\<close> of a mutating method called on the
  value \<open>v\<close> in the state \<open>s\<close>: the call returned and did not raise; exactly one
  warning was issued; the value, backing store included, is as before; its length, its
  items and slices and its equality with any list read as before; the list the registry
  holds for each id has the same elements as before; and the extension points, the
  listener table and the calls made to listeners are as before.
\<close>

definition rejected ::
  "('i, 'r) outcome \<times> ('i, 'a) extension_point_value \<times> ('i, 'a, 'l) state \<Rightarrow>
   ('i, 'a) extension_point_value \<Rightarrow> ('i, 'a, 'l) state \<Rightarrow> bool" where
  "rejected res v s =
     (case res of
        (Raise e, v', s') \<Rightarrow> False
      | (Return r, v', s') \<Rightarrow>
          warnings s' = warnings s @ [''Extension point cannot be mutated directly.''] \<and>
          v' = v \<and>
          fst (view_len v' s') = fst (view_len v s) \<and>
          (\<forall>k. fst (view_getitem v' k s') = fst (view_getitem v k s)) \<and>
          (\<forall>other. fst (view_eq v' other s') = fst (view_eq v other s)) \<and>
          (\<forall>j. stored s' j = stored s j) \<and>
          extension_points s' = extension_points s \<and>
          listeners s' = listeners s \<and>
          calls s' = calls s)"

section \<open>Registration sequences and example states\<close>

text \<open>
  Registering a sequence of listeners, each for an id or for \<^verbatim>\<open>None\<close>, one call of
  \<^verbatim>\<open>add_extension_point_listener\<close> after the other.
\<close>

fun add_listeners :: "('l \<times> 'i option) list \<Rightarrow> ('i, 'a, 'l) state \<Rightarrow> ('i, 'a, 'l) state" where
  "add_listeners [] s = s"
| "add_listeners ((l, k) # rs) s = add_listeners rs (snd (add_extension_point_listener l k s))"

text \<open>
  A registry with the extension point \<open>x\<close>, to which the list \<open>[1, 2]\<close> (the list
  object at address 0) is contributed, the listener \<open>A\<close> registered for \<open>x\<close> and the
  listener \<open>B\<close> registered for every extension point. The parameter lists the
  listeners that are gone: the weak references to them have expired.
\<close>

definition example_registry :: "string list \<Rightarrow> (string, nat, string) state" where
  "example_registry gone =
     \<lparr>heap = [[1, 2]],
      extensions = [''x'' \<mapsto> 0],
      extension_points = [''x'' \<mapsto> \<lparr>ep_id = ''x'', desc = []\<rparr>],
      listeners = [Some ''x'' \<mapsto> [''A''], None \<mapsto> [''B'']],
      alive = (\<lambda>l. l \<notin> set gone), calls = [], warnings = []\<rparr>"

text \<open>
  An object whose trait \<open>exts\<close> is the extension point \<open>x\<close>, and the value
  \<^verbatim>\<open>_update_cache\<close> builds for it in the example registry.
\<close>

definition example_object :: "string has_traits" where
  "example_object = \<lparr>trait_id = [''exts'' \<mapsto> ''x''], has_extension_registry = True\<rparr>"

definition example_view :: "(string, nat) extension_point_value" where
  "example_view = \<lparr>items = [1, 2], internal_use = False, object = example_object, name = ''exts''\<rparr>"

text \<open>
  The example registry after \<open>x\<close> has been set to the list \<open>[9]\<close> (the list object at
  address 1): the value cached before is now stale.
\<close>

definition stale_registry :: "(string, nat, string) state" where
  "stale_registry = snd (set_extensions ''x'' 1 ((example_registry [])\<lparr>heap := [[1, 2], [9]]\<rparr>))"

text \<open>
  A registry in which the list \<open>[1, 2]\<close> was created, \<open>x\<close> was added, set to that
  list and removed again.
\<close>

definition removed_registry :: "(string, nat, string) state" where
  "removed_registry =
     snd (remove_extension_point ''x''
       (snd (set_extensions ''x'' 0
         (snd (add_extension_point \<lparr>ep_id = ''x'', desc = []\<rparr>
           (snd (alloc [1, 2] (empty_registry (\<lambda>l. True)))))))))"

text \<open>
  The scenario of the dispatch order: the list \<open>[1]\<close> is created and \<open>x\<close> is added
  to an empty registry; then \<open>A\<close> is registered on \<open>x\<close> and after it \<open>B\<close> on
  \<^verbatim>\<open>None\<close>.
\<close>

definition declared_registry :: "(string, nat, string) state" where
  "declared_registry =
     snd (add_extension_point \<lparr>ep_id = ''x'', desc = []\<rparr>
       (snd (alloc [1] (empty_registry (\<lambda>l. True)))))"

definition listening_registry :: "(string, nat, string) state" where
  "listening_registry = add_listeners [(''A'', Some ''x''), (''B'', None)] declared_registry"

section \<open>Properties of the registry\<close>

subsection \<open>What the operations compute\<close>

lemma call_each_eq:
  "call_each refs ev s = s\<lparr>calls := calls s @ map (\<lambda>l. (l, ev)) (filter (alive s) refs)\<rparr>"
  by (induction refs arbitrary: s) simp_all

lemma set_extensions_stored:
  assumes "extension_points s i = Some d" and "extensions s i = Some old"
  shows "set_extensions i a s =
     (Return (),
      s\<lparr>extensions := (extensions s)(i \<mapsto> a),
        calls := calls s @
          map (\<lambda>l. (l, \<lparr>extension_point_id = i, added = a, removed = old, index = None\<rparr>))
            (filter (alive s) (get_listener_refs i s))\<rparr>)"
  using assms
  by (simp add: set_extensions_def check_extension_point_def dom_def call_listeners_def
      call_each_eq protected_get_extensions_def get_listener_refs_def)

lemma set_extensions_unstored:
  assumes "extension_points s i = Some d" and "extensions s i = None"
  shows "set_extensions i a s =
     (Return (),
      s\<lparr>heap := heap s @ [[]],
        extensions := (extensions s)(i \<mapsto> a),
        calls := calls s @
          map (\<lambda>l. (l, \<lparr>extension_point_id = i, added = a, removed = length (heap s),
                         index = None\<rparr>))
            (filter (alive s) (get_listener_refs i s))\<rparr>)"
  using assms
  by (simp add: set_extensions_def check_extension_point_def dom_def call_listeners_def
      call_each_eq protected_get_extensions_def alloc_def get_listener_refs_def)

lemma remove_extension_point_stored:
  assumes "extension_points s i = Some d" and "extensions s i = Some old"
  shows "remove_extension_point i s =
     (Return (),
      s\<lparr>heap := heap s @ [[]],
        extensions := (extensions s)(i := None),
        extension_points := (extension_points s)(i := None),
        calls := calls s @
          map (\<lambda>l. (l, \<lparr>extension_point_id = i, added = length (heap s), removed = old,
                         index = Some 0\<rparr>))
            (filter (alive s) (get_listener_refs i s))\<rparr>)"
  using assms
  by (simp add: remove_extension_point_def check_extension_point_def dom_def call_listeners_def
      call_each_eq alloc_def get_listener_refs_def)

lemma remove_extension_point_unstored:
  assumes "extension_points s i = Some d" and "extensions s i = None"
  shows "remove_extension_point i s =
     (Return (),
      s\<lparr>heap := heap s @ [[], []],
        extension_points := (extension_points s)(i := None),
        calls := calls s @
          map (\<lambda>l. (l, \<lparr>extension_point_id = i, added = Suc (length (heap s)),
                         removed = length (heap s), index = Some 0\<rparr>))
            (filter (alive s) (get_listener_refs i s))\<rparr>)"
  using assms
  by (simp add: remove_extension_point_def check_extension_point_def dom_def call_listeners_def
      call_each_eq alloc_def get_listener_refs_def)

lemma get_extensions_stored:
  assumes "extensions s i = Some a"
  shows "get_extensions i s = (Return (length (heap s)), s\<lparr>heap := heap s @ [heap s ! a]\<rparr>)"
  using assms by (simp add: get_extensions_def protected_get_extensions_def alloc_def)

lemma get_extensions_unstored:
  assumes "extensions s i = None"
  shows "get_extensions i s =
     (Return (Suc (length (heap s))),
      s\<lparr>heap := heap s @ [[], []], extensions := (extensions s)(i \<mapsto> length (heap s))\<rparr>)"
  using assms by (simp add: get_extensions_def protected_get_extensions_def alloc_def)

lemma stored_simps:
  "extensions s i = None \<Longrightarrow> stored s i = []"
  "extensions s i = Some a \<Longrightarrow> stored s i = heap s ! a"
  by (simp_all add: stored_def)

lemma set_extensions_listeners:
  "listeners (snd (set_extensions i a s)) = listeners s"
  by (simp add: set_extensions_def check_extension_point_def call_listeners_def call_each_eq
      protected_get_extensions_def alloc_def Let_def split: option.splits)

lemma remove_extension_point_listeners:
  "listeners (snd (remove_extension_point i s)) = listeners s"
  by (simp add: remove_extension_point_def check_extension_point_def call_listeners_def
      call_each_eq alloc_def Let_def split: option.splits)

lemma set_extensions_calls:
  assumes "extension_points s i = Some d"
  shows "\<exists>old. calls (snd (set_extensions i a s)) = calls s @
     map (\<lambda>l. (l, \<lparr>extension_point_id = i, added = a, removed = old, index = None\<rparr>))
       (filter (alive s) (get_listener_refs i s))"
proof (cases "extensions s i")
  case None
  show ?thesis by (simp add: set_extensions_unstored [OF assms None])
next
  case (Some old)
  show ?thesis by (simp add: set_extensions_stored [OF assms Some])
qed

lemma remove_extension_point_calls:
  assumes "extension_points s i = Some d"
  shows "\<exists>new old. calls (snd (remove_extension_point i s)) = calls s @
     map (\<lambda>l. (l, \<lparr>extension_point_id = i, added = new, removed = old, index = Some 0\<rparr>))
       (filter (alive s) (get_listener_refs i s))"
proof (cases "extensions s i")
  case None
  show ?thesis by (simp add: remove_extension_point_unstored [OF assms None])
next
  case (Some old)
  show ?thesis by (simp add: remove_extension_point_stored [OF assms Some])
qed

lemma set_extensions_returns:
  "extension_points s i = Some d \<Longrightarrow> fst (set_extensions i a s) = Return ()"
  by (simp add: set_extensions_def check_extension_point_def dom_def Let_def split: prod.splits)

lemma remove_extension_point_returns:
  "extension_points s i = Some d \<Longrightarrow> fst (remove_extension_point i s) = Return ()"
  by (simp add: remove_extension_point_def check_extension_point_def dom_def Let_def
      split: prod.splits option.splits)

lemma add_listeners_get_or_empty:
  "get_or_empty (listeners (add_listeners rs s)) k
     = get_or_empty (listeners s) k @ map fst (filter (\<lambda>r. snd r = k) rs)"
  by (induction rs s rule: add_listeners.induct)
    (auto simp add: add_extension_point_listener_def get_or_empty_def)

lemma add_listeners_frame:
  "heap (add_listeners rs s) = heap s"
  "extensions (add_listeners rs s) = extensions s"
  "extension_points (add_listeners rs s) = extension_points s"
  "alive (add_listeners rs s) = alive s"
  "calls (add_listeners rs s) = calls s"
  by (induction rs s rule: add_listeners.induct)
    (simp_all add: add_extension_point_listener_def)

subsection \<open>Removing an extension point that was never added\<close>

text \<open>
  C9: for an id that is not a key of the extension points, \<^verbatim>\<open>remove_extension_point\<close>
  raises \<^verbatim>\<open>UnknownExtensionPoint\<close> for that id and the whole state is as before: the
  extension points, the stored contributions and the listener table are unchanged, and
  no call to a listener has been added.
\<close>

theorem remove_unknown_extension_point_raises:
  "extension_points s i = None \<Longrightarrow>
     remove_extension_point i s = (Raise (UnknownExtensionPoint i), s)"
  by (simp add: remove_extension_point_def check_extension_point_def dom_def)

theorem remove_unknown_extension_point_raises_witness:
  "extension_points (example_registry []) ''y'' = None \<and>
   remove_extension_point ''y'' (example_registry [])
     = (Raise (UnknownExtensionPoint ''y''), example_registry [])"
  using remove_unknown_extension_point_raises [of "example_registry []" "''y''"]
  by (simp add: example_registry_def)

subsection \<open>Removing a registered extension point\<close>

text \<open>
  C1 (amended): for a registered id whose stored list object, if there is one, exists,
  \<^verbatim>\<open>remove_extension_point\<close> returns, the id is afterwards neither a key of the
  extension points nor of the stored contributions, and every listener that is alive
  among those registered for the id and then those registered for \<^verbatim>\<open>None\<close> is called
  once more, in that order, with one and the same event: its \<open>added\<close> is an empty list,
  its \<open>removed\<close> is a list with the elements that were stored for the id, and its
  \<open>index\<close> is the integer \<open>0\<close>.
\<close>

theorem remove_extension_point_notifies:
  assumes "extension_points s i = Some d"
    and "\<forall>a. extensions s i = Some a \<longrightarrow> a < length (heap s)"
  shows "\<exists>new old s'.
     remove_extension_point i s = (Return (), s') \<and>
     extension_points s' i = None \<and> extensions s' i = None \<and>
     calls s' = calls s @
       map (\<lambda>l. (l, \<lparr>extension_point_id = i, added = new, removed = old, index = Some 0\<rparr>))
         (filter (alive s) (get_listener_refs i s)) \<and>
     heap s' ! new = [] \<and> heap s' ! old = stored s i"
proof (cases "extensions s i")
  case None
  show ?thesis
    by (rule exI [where x = "Suc (length (heap s))"], rule exI [where x = "length (heap s)"])
      (simp add: remove_extension_point_unstored [OF assms(1) None] stored_simps(1) [OF None]
        None nth_append)
next
  case (Some a)
  with assms(2) have "a < length (heap s)" by simp
  then show ?thesis
    by (intro exI [where x = "length (heap s)"] exI [where x = a])
      (simp add: remove_extension_point_stored [OF assms(1) Some] stored_simps(2) [OF Some]
        nth_append)
qed

theorem remove_extension_point_notifies_witness:
  "extension_points (example_registry []) ''x'' = Some \<lparr>ep_id = ''x'', desc = []\<rparr> \<and>
   extensions (example_registry []) ''x'' = Some 0 \<and>
   stored (example_registry []) ''x'' = [1, 2] \<and>
   (\<exists>new old s'.
     remove_extension_point ''x'' (example_registry []) = (Return (), s') \<and>
     extension_points s' ''x'' = None \<and> extensions s' ''x'' = None \<and>
     calls s' =
       [(''A'', \<lparr>extension_point_id = ''x'', added = new, removed = old, index = Some 0\<rparr>),
        (''B'', \<lparr>extension_point_id = ''x'', added = new, removed = old, index = Some 0\<rparr>)] \<and>
     heap s' ! new = [] \<and> heap s' ! old = [1, 2])"
  using remove_extension_point_notifies [of "example_registry []" "''x''" "\<lparr>ep_id = ''x'', desc = []\<rparr>"]
  by (simp add: example_registry_def stored_def get_listener_refs_def get_or_empty_def)

text \<open>
  The spec gives the \<open>index\<close> of that event as \<^verbatim>\<open>None\<close>. In the example
  registry, removing \<open>x\<close> calls \<open>A\<close> and \<open>B\<close>, and the index each of them receives
  is \<open>0\<close>.
\<close>

theorem remove_extension_point_index_counterexample:
  "map (index \<circ> snd) (calls (snd (remove_extension_point ''x'' (example_registry []))))
     = [Some 0, Some 0]"
  by (simp add: remove_extension_point_stored [where d = "\<lparr>ep_id = ''x'', desc = []\<rparr>" and old = 0]
      example_registry_def get_listener_refs_def get_or_empty_def)

subsection \<open>Listeners whose weak reference has expired\<close>

text \<open>
  C2 (amended): when \<^verbatim>\<open>set_extensions\<close> or \<^verbatim>\<open>remove_extension_point\<close> dispatches the
  event of a registered id, a listener whose weak reference has expired is not called and
  the operation returns without raising; the listener table is the same after the
  dispatch as before it, so the expired entry stays where it was.
\<close>

theorem dispatch_skips_expired_listeners:
  assumes "extension_points s i = Some d" and "\<not> alive s l"
  shows "fst (set_extensions i a s) = Return () \<and>
         l \<notin> fst ` set (drop (length (calls s)) (calls (snd (set_extensions i a s)))) \<and>
         listeners (snd (set_extensions i a s)) = listeners s \<and>
         fst (remove_extension_point i s) = Return () \<and>
         l \<notin> fst ` set (drop (length (calls s)) (calls (snd (remove_extension_point i s)))) \<and>
         listeners (snd (remove_extension_point i s)) = listeners s"
proof -
  obtain old where s: "calls (snd (set_extensions i a s)) = calls s @
     map (\<lambda>l. (l, \<lparr>extension_point_id = i, added = a, removed = old, index = None\<rparr>))
       (filter (alive s) (get_listener_refs i s))"
    using set_extensions_calls [OF assms(1)] by blast
  obtain new old' where r: "calls (snd (remove_extension_point i s)) = calls s @
     map (\<lambda>l. (l, \<lparr>extension_point_id = i, added = new, removed = old', index = Some 0\<rparr>))
       (filter (alive s) (get_listener_refs i s))"
    using remove_extension_point_calls [OF assms(1)] by blast
  have "l \<notin> fst ` set (drop (length (calls s)) (calls (snd (set_extensions i a s))))"
    using assms(2) by (auto simp add: s)
  moreover have "l \<notin> fst ` set (drop (length (calls s)) (calls (snd (remove_extension_point i s))))"
    using assms(2) by (auto simp add: r)
  ultimately show ?thesis
    by (simp add: set_extensions_returns [OF assms(1)] remove_extension_point_returns [OF assms(1)]
        set_extensions_listeners remove_extension_point_listeners)
qed

theorem dispatch_skips_expired_listeners_witness:
  "extension_points (example_registry [''A'']) ''x'' = Some \<lparr>ep_id = ''x'', desc = []\<rparr> \<and>
   \<not> alive (example_registry [''A'']) ''A'' \<and>
   fst (set_extensions ''x'' 0 (example_registry [''A''])) = Return () \<and>
   ''A'' \<notin> fst ` set (calls (snd (set_extensions ''x'' 0 (example_registry [''A''])))) \<and>
   listeners (snd (set_extensions ''x'' 0 (example_registry [''A''])))
     = [Some ''x'' \<mapsto> [''A''], None \<mapsto> [''B'']] \<and>
   fst (remove_extension_point ''x'' (example_registry [''A''])) = Return () \<and>
   ''A'' \<notin> fst ` set (calls (snd (remove_extension_point ''x'' (example_registry [''A''])))) \<and>
   listeners (snd (remove_extension_point ''x'' (example_registry [''A''])))
     = [Some ''x'' \<mapsto> [''A''], None \<mapsto> [''B'']]"
proof -
  have reg: "extension_points (example_registry [''A'']) ''x'' = Some \<lparr>ep_id = ''x'', desc = []\<rparr>"
    and gone: "\<not> alive (example_registry [''A'']) ''A''"
    and none: "calls (example_registry [''A'']) = []"
    and tab: "listeners (example_registry [''A'']) = [Some ''x'' \<mapsto> [''A''], None \<mapsto> [''B'']]"
    by (simp_all add: example_registry_def)
  show ?thesis
    using dispatch_skips_expired_listeners [OF reg gone, of 0] by (simp add: reg gone none tab)
qed

text \<open>
  The spec has the expired entry removed from the listener table during the dispatch. In
  the example registry with \<open>A\<close> gone, \<^verbatim>\<open>set_extensions\<close> on \<open>x\<close> returns, the table
  is what it was, and it still holds \<open>A\<close> under \<open>x\<close>.
\<close>

theorem expired_listener_not_pruned_counterexample:
  "\<not> alive (example_registry [''A'']) ''A'' \<and>
   fst (set_extensions ''x'' 0 (example_registry [''A''])) = Return () \<and>
   listeners (snd (set_extensions ''x'' 0 (example_registry [''A''])))
     = listeners (example_registry [''A'']) \<and>
   listeners (snd (set_extensions ''x'' 0 (example_registry [''A'']))) (Some ''x'') = Some [''A'']"
  by (simp add: set_extensions_stored [where d = "\<lparr>ep_id = ''x'', desc = []\<rparr>" and old = 0]
      example_registry_def)

subsection \<open>The order in which listeners are called\<close>

text \<open>
  C5: after registering any sequence of listeners, a \<^verbatim>\<open>set_extensions\<close> or a
  \<^verbatim>\<open>remove_extension_point\<close> on a registered id calls, with one event for that id,
  first the live listeners registered for exactly that id, in the order they were
  registered (those of the table before the sequence, then those of the sequence), and
  then the live listeners registered for \<^verbatim>\<open>None\<close>, in the order they were registered.
  The witness is the scenario of the spec: \<open>A\<close> registered on \<open>x\<close>, then \<open>B\<close>
  registered on \<^verbatim>\<open>None\<close>, then \<^verbatim>\<open>set_extensions("x", [1])\<close> calls \<open>A\<close>, then \<open>B\<close>.
\<close>

theorem dispatch_order:
  assumes "extension_points s i = Some d"
  shows "(\<exists>ev. extension_point_id ev = i \<and>
            calls (snd (set_extensions i a (add_listeners rs s))) = calls s @
            map (\<lambda>l. (l, ev))
              (filter (alive s)
                 ((get_or_empty (listeners s) (Some i) @ map fst (filter (\<lambda>r. snd r = Some i) rs)) @
                  (get_or_empty (listeners s) None @ map fst (filter (\<lambda>r. snd r = None) rs))))) \<and>
         (\<exists>ev. extension_point_id ev = i \<and>
            calls (snd (remove_extension_point i (add_listeners rs s))) = calls s @
            map (\<lambda>l. (l, ev))
              (filter (alive s)
                 ((get_or_empty (listeners s) (Some i) @ map fst (filter (\<lambda>r. snd r = Some i) rs)) @
                  (get_or_empty (listeners s) None @ map fst (filter (\<lambda>r. snd r = None) rs)))))"
proof -
  let ?s = "add_listeners rs s"
  have reg: "extension_points ?s i = Some d"
    using assms by (simp add: add_listeners_frame)
  have refs: "get_listener_refs i ?s =
      (get_or_empty (listeners s) (Some i) @ map fst (filter (\<lambda>r. snd r = Some i) rs)) @
      (get_or_empty (listeners s) None @ map fst (filter (\<lambda>r. snd r = None) rs))"
    by (simp add: get_listener_refs_def add_listeners_get_or_empty)
  show ?thesis
    using set_extensions_calls [OF reg, of a] remove_extension_point_calls [OF reg]
    unfolding refs add_listeners_frame by (metis event.select_convs(1))
qed

theorem dispatch_order_witness:
  "extension_points declared_registry ''x'' = Some \<lparr>ep_id = ''x'', desc = []\<rparr> \<and>
   heap declared_registry ! 0 = [1] \<and>
   map fst (calls (snd (set_extensions ''x'' 0 listening_registry))) = [''A'', ''B''] \<and>
   map fst (calls (snd (remove_extension_point ''x'' listening_registry))) = [''A'', ''B'']"
proof -
  have reg: "extension_points declared_registry ''x'' = Some \<lparr>ep_id = ''x'', desc = []\<rparr>"
    and hp: "heap declared_registry ! 0 = [1]"
    by (simp_all add: declared_registry_def add_extension_point_def alloc_def empty_registry_def)
  have "calls declared_registry = []" "listeners declared_registry = Map.empty"
    "alive declared_registry = (\<lambda>l. True)"
    by (simp_all add: declared_registry_def add_extension_point_def alloc_def empty_registry_def)
  then show ?thesis
    using dispatch_order [OF reg, of 0 "[(''A'', Some ''x''), (''B'', None)]"]
    by (auto simp add: reg hp listening_registry_def get_or_empty_def comp_def)
qed

subsection \<open>Reading back what was set\<close>

text \<open>
  C6: for a registered id and an existing list object \<open>a\<close>, \<^verbatim>\<open>set_extensions\<close>
  returns, and \<^verbatim>\<open>get_extensions\<close> right after it returns a list object that has the
  elements of \<open>a\<close> and is not \<open>a\<close> itself.
\<close>

theorem get_extensions_after_set_extensions:
  assumes "extension_points s i = Some d" and "a < length (heap s)"
  shows "\<exists>s1 r s2.
     set_extensions i a s = (Return (), s1) \<and>
     get_extensions i s1 = (Return r, s2) \<and>
     heap s2 ! r = heap s ! a \<and> r \<noteq> a"
proof (cases "extensions s i")
  case None
  show ?thesis
    using assms(2)
    by (simp add: set_extensions_unstored [OF assms(1) None] get_extensions_stored nth_append)
next
  case (Some old)
  show ?thesis
    using assms(2)
    by (simp add: set_extensions_stored [OF assms(1) Some] get_extensions_stored nth_append)
qed

theorem get_extensions_after_set_extensions_witness:
  "extension_points (example_registry []) ''x'' = Some \<lparr>ep_id = ''x'', desc = []\<rparr> \<and>
   heap ((example_registry [])\<lparr>heap := [[1, 2], [7, 8, 9]]\<rparr>) ! 1 = [7, 8, 9] \<and>
   (\<exists>s1 r s2.
     set_extensions ''x'' 1 ((example_registry [])\<lparr>heap := [[1, 2], [7, 8, 9]]\<rparr>) = (Return (), s1) \<and>
     get_extensions ''x'' s1 = (Return r, s2) \<and>
     heap s2 ! r = [7, 8, 9] \<and> r \<noteq> 1)"
  using get_extensions_after_set_extensions [of "(example_registry [])\<lparr>heap := [[1, 2], [7, 8, 9]]\<rparr>" "''x''"
      "\<lparr>ep_id = ''x'', desc = []\<rparr>" 1]
  by (simp add: example_registry_def)

subsection \<open>Removing and adding an extension point again\<close>

text \<open>
  C8: from any state, for any extension point \<open>d\<close> and any list object \<open>a\<close> (the
  claim's \<open>[1, 2, 3]\<close> in the witness), \<^verbatim>\<open>add_extension_point(d)\<close>,
  \<^verbatim>\<open>set_extensions(d.id, a)\<close>, \<^verbatim>\<open>remove_extension_point(d.id)\<close> and
  \<^verbatim>\<open>add_extension_point(d)\<close> all return, and \<^verbatim>\<open>get_extensions(d.id)\<close> then returns an
  empty list.
\<close>

theorem remove_readd_round_trip:
  "\<exists>s1 s2 s3 s4 r s5.
     add_extension_point d s = (Return (), s1) \<and>
     set_extensions (ep_id d) a s1 = (Return (), s2) \<and>
     remove_extension_point (ep_id d) s2 = (Return (), s3) \<and>
     add_extension_point d s3 = (Return (), s4) \<and>
     get_extensions (ep_id d) s4 = (Return r, s5) \<and>
     heap s5 ! r = []"
proof -
  let ?i = "ep_id d"
  obtain s1 where s1: "add_extension_point d s = (Return (), s1)"
    and reg1: "extension_points s1 ?i = Some d"
    by (simp add: add_extension_point_def)
  obtain s2 where s2: "set_extensions ?i a s1 = (Return (), s2)"
    and reg2: "extension_points s2 ?i = Some d" and st2: "extensions s2 ?i = Some a"
    by (cases "extensions s1 ?i")
      (simp_all add: set_extensions_unstored [OF reg1] set_extensions_stored [OF reg1] reg1)
  obtain s3 where s3: "remove_extension_point ?i s2 = (Return (), s3)"
    and st3: "extensions s3 ?i = None"
    by (simp add: remove_extension_point_stored [OF reg2 st2])
  obtain s4 where s4: "add_extension_point d s3 = (Return (), s4)"
    and st4: "extensions s4 ?i = None"
    using st3 by (simp add: add_extension_point_def)
  have "\<exists>r s5. get_extensions ?i s4 = (Return r, s5) \<and> heap s5 ! r = []"
    by (simp add: get_extensions_unstored [OF st4] nth_append)
  with s1 s2 s3 s4 show ?thesis by blast
qed

theorem remove_readd_round_trip_witness:
  "\<exists>s1 s2 s3 s4 r s5.
     add_extension_point \<lparr>ep_id = ''my.ep'', desc = []\<rparr>
       ((empty_registry (\<lambda>l. True) :: (string, nat, string) state)\<lparr>heap := [[1, 2, 3]]\<rparr>)
       = (Return (), s1) \<and>
     heap s1 ! 0 = [1, 2, 3] \<and>
     set_extensions ''my.ep'' 0 s1 = (Return (), s2) \<and>
     remove_extension_point ''my.ep'' s2 = (Return (), s3) \<and>
     add_extension_point \<lparr>ep_id = ''my.ep'', desc = []\<rparr> s3 = (Return (), s4) \<and>
     get_extensions ''my.ep'' s4 = (Return r, s5) \<and>
     heap s5 ! r = []"
  using remove_readd_round_trip [of "\<lparr>ep_id = ''my.ep'', desc = []\<rparr>"
      "(empty_registry (\<lambda>l. True) :: (string, nat, string) state)\<lparr>heap := [[1, 2, 3]]\<rparr>" 0]
  by (auto simp add: add_extension_point_def empty_registry_def)

subsection \<open>Valid states\<close>

lemma stored_append:
  assumes "valid s"
  shows "stored (s\<lparr>heap := heap s @ ys\<rparr>) j = stored s j"
  using assms by (auto simp add: stored_def valid_def nth_append split: option.splits)

lemma get_extensions_value:
  assumes "valid s"
  shows "\<exists>r s1. get_extensions i s = (Return r, s1) \<and> heap s1 ! r = stored s i \<and>
           valid s1 \<and> (\<forall>j. stored s1 j = stored s j) \<and>
           extension_points s1 = extension_points s \<and> listeners s1 = listeners s \<and>
           calls s1 = calls s \<and> warnings s1 = warnings s \<and> alive s1 = alive s"
proof (cases "extensions s i")
  case None
  have "stored (s\<lparr>heap := heap s @ [[], []], extensions := (extensions s)(i \<mapsto> length (heap s))\<rparr>) j
      = stored s j" for j
    using assms None by (auto simp add: stored_def valid_def nth_append split: option.splits)
  moreover have "valid (s\<lparr>heap := heap s @ [[], []], extensions := (extensions s)(i \<mapsto> length (heap s))\<rparr>)"
    using assms by (auto simp add: valid_def less_Suc_eq)
  ultimately show ?thesis
    by (simp add: get_extensions_unstored [OF None] stored_simps(1) [OF None] nth_append)
next
  case (Some a)
  have a: "a < length (heap s)" using assms Some by (simp add: valid_def)
  have "stored (s\<lparr>heap := heap s @ [heap s ! a]\<rparr>) j = stored s j" for j
    by (rule stored_append [OF assms])
  moreover have "valid (s\<lparr>heap := heap s @ [heap s ! a]\<rparr>)"
    using assms by (auto simp add: valid_def less_Suc_eq)
  ultimately show ?thesis
    using a by (simp add: get_extensions_stored [OF Some] stored_simps(2) [OF Some] nth_append)
qed

lemma valid_example: "valid (example_registry gone)"
  by (simp add: valid_def example_registry_def)

lemma stale_registry_eq:
  "stale_registry =
     \<lparr>heap = [[1, 2], [9]],
      extensions = [''x'' \<mapsto> 1],
      extension_points = [''x'' \<mapsto> \<lparr>ep_id = ''x'', desc = []\<rparr>],
      listeners = [Some ''x'' \<mapsto> [''A''], None \<mapsto> [''B'']],
      alive = (\<lambda>l. l \<notin> set []),
      calls = [(''A'', \<lparr>extension_point_id = ''x'', added = 1, removed = 0, index = None\<rparr>),
               (''B'', \<lparr>extension_point_id = ''x'', added = 1, removed = 0, index = None\<rparr>)],
      warnings = []\<rparr>"
  by (simp add: stale_registry_def
      set_extensions_stored [where d = "\<lparr>ep_id = ''x'', desc = []\<rparr>" and old = 0]
      example_registry_def get_listener_refs_def get_or_empty_def)

subsection \<open>A copy on every read\<close>

text \<open>
  C10: in a valid state, \<^verbatim>\<open>get_extensions(id)\<close> returns a list object \<open>r\<close> that did not
  exist before the call, is stored under no id, and has the elements the registry holds
  for the id. Whatever the caller then does to \<open>r\<close> (the heap is updated at \<open>r\<close> with
  any elements), the list the registry holds for each id still has the elements it had,
  and the next \<^verbatim>\<open>get_extensions(id)\<close> returns another list object with the elements
  the registry held for the id before the first call.
\<close>

theorem get_extensions_returns_fresh_copy:
  assumes "valid s"
  shows "\<exists>r s1.
     get_extensions i s = (Return r, s1) \<and>
     heap s1 ! r = stored s i \<and>
     length (heap s) \<le> r \<and> r < length (heap s1) \<and>
     (\<forall>j. extensions s1 j \<noteq> Some r) \<and>
     (\<forall>j. stored s1 j = stored s j) \<and>
     (\<forall>xs. (\<forall>j. stored (s1\<lparr>heap := (heap s1)[r := xs]\<rparr>) j = stored s j) \<and>
           (\<exists>r' s2. get_extensions i (s1\<lparr>heap := (heap s1)[r := xs]\<rparr>) = (Return r', s2) \<and>
                    r' \<noteq> r \<and> heap s2 ! r' = stored s i))"
proof (cases "extensions s i")
  case None
  let ?n = "length (heap s)"
  let ?s1 = "s\<lparr>heap := heap s @ [[], []], extensions := (extensions s)(i \<mapsto> ?n)\<rparr>"
  have get: "get_extensions i s = (Return (Suc ?n), ?s1)"
    by (rule get_extensions_unstored [OF None])
  have st: "stored s i = []" by (rule stored_simps(1) [OF None])
  have upd: "(heap s @ [[], []])[Suc ?n := xs] = heap s @ [[], xs]" for xs
    by (simp add: list_update_append)
  have same: "stored (?s1\<lparr>heap := heap s @ [[], xs]\<rparr>) j = stored s j" for xs j
    using assms st by (auto simp add: stored_def valid_def nth_append split: option.splits)
  have same1: "stored ?s1 j = stored s j" for j
    using assms st by (auto simp add: stored_def valid_def nth_append split: option.splits)
  have fresh: "extensions ?s1 j \<noteq> Some (Suc ?n)" for j
    using assms [unfolded valid_def, rule_format, of j "Suc ?n"] by auto
  have again: "\<exists>r' s2. get_extensions i (?s1\<lparr>heap := heap s @ [[], xs]\<rparr>) = (Return r', s2) \<and>
                    r' \<noteq> Suc ?n \<and> heap s2 ! r' = stored s i" for xs
    by (simp add: get_extensions_stored [where a = ?n] st nth_append)
  show ?thesis
    unfolding get using same same1 fresh again
    by (simp add: upd st nth_append)
next
  case (Some a)
  let ?n = "length (heap s)"
  let ?s1 = "s\<lparr>heap := heap s @ [heap s ! a]\<rparr>"
  have a: "a < ?n" using assms Some by (simp add: valid_def)
  have get: "get_extensions i s = (Return ?n, ?s1)"
    by (rule get_extensions_stored [OF Some])
  have st: "stored s i = heap s ! a" by (rule stored_simps(2) [OF Some])
  have upd: "(heap s @ [heap s ! a])[?n := xs] = heap s @ [xs]" for xs
    by simp
  have same: "stored (?s1\<lparr>heap := heap s @ [xs]\<rparr>) j = stored s j" for xs j
    using assms by (auto simp add: stored_def valid_def nth_append split: option.splits)
  have same1: "stored ?s1 j = stored s j" for j
    using assms by (auto simp add: stored_def valid_def nth_append split: option.splits)
  have fresh: "extensions ?s1 j \<noteq> Some ?n" for j
    using assms [unfolded valid_def, rule_format, of j ?n] by auto
  have again: "\<exists>r' s2. get_extensions i (?s1\<lparr>heap := heap s @ [xs]\<rparr>) = (Return r', s2) \<and>
                    r' \<noteq> ?n \<and> heap s2 ! r' = stored s i" for xs
    using a by (simp add: get_extensions_stored [where a = a] Some st nth_append)
  show ?thesis
    unfolding get using same same1 fresh again a
    by (simp add: upd st nth_append)
qed

theorem get_extensions_returns_fresh_copy_witness:
  "valid (example_registry []) \<and>
   stored (example_registry []) ''x'' = [1, 2] \<and>
   (\<exists>r s1.
      get_extensions ''x'' (example_registry []) = (Return r, s1) \<and>
      heap s1 ! r = [1, 2] \<and>
      heap (s1\<lparr>heap := (heap s1)[r := [1, 2, 3]]\<rparr>) ! r = [1, 2, 3] \<and>
      stored (s1\<lparr>heap := (heap s1)[r := [1, 2, 3]]\<rparr>) ''x'' = [1, 2] \<and>
      (\<exists>r' s2. get_extensions ''x'' (s1\<lparr>heap := (heap s1)[r := [1, 2, 3]]\<rparr>) = (Return r', s2) \<and>
               r' \<noteq> r \<and> heap s2 ! r' = [1, 2]))"
proof -
  have v: "valid (example_registry [])" by (rule valid_example)
  have st: "stored (example_registry []) ''x'' = [1, 2]"
    by (simp add: stored_def example_registry_def)
  obtain r s1 where get: "get_extensions ''x'' (example_registry []) = (Return r, s1)"
    and val: "heap s1 ! r = stored (example_registry []) ''x''"
    and len: "r < length (heap s1)"
    and after: "\<forall>xs. (\<forall>j. stored (s1\<lparr>heap := (heap s1)[r := xs]\<rparr>) j = stored (example_registry []) j) \<and>
           (\<exists>r' s2. get_extensions ''x'' (s1\<lparr>heap := (heap s1)[r := xs]\<rparr>) = (Return r', s2) \<and>
                    r' \<noteq> r \<and> heap s2 ! r' = stored (example_registry []) ''x'')"
    using get_extensions_returns_fresh_copy [OF v, of "''x''"] by blast
  from after [rule_format, of "[1, 2, 3]"] get val len show ?thesis
    by (simp add: v st)
qed

section \<open>Properties of the cached value\<close>

subsection \<open>Reading through the cached value\<close>

lemma ep_get_extensions_value:
  assumes "trait_id (object v) (name v) = Some i" and "has_extension_registry (object v)"
    and "valid s"
  shows "\<exists>r s1. ep_get_extensions (object v) (name v) s = (Return r, s1) \<and>
           heap s1 ! r = stored s i \<and> valid s1 \<and> (\<forall>j. stored s1 j = stored s j) \<and>
           extension_points s1 = extension_points s \<and> listeners s1 = listeners s \<and>
           calls s1 = calls s \<and> warnings s1 = warnings s \<and> alive s1 = alive s"
  using get_extensions_value [OF assms(3), of i] assms(1,2)
  by (simp add: ep_get_extensions_def)

lemma accessors_read_stored:
  assumes "\<not> internal_use v"
    and "trait_id (object v) (name v) = Some i" and "has_extension_registry (object v)"
    and "valid s"
  shows "fst (view_eq v other s) = Return (stored s i = other) \<and>
         fst (view_getitem v k s) = list_getitem (stored s i) k \<and>
         fst (view_len v s) = Return (length (stored s i))"
proof -
  obtain r s1 where "ep_get_extensions (object v) (name v) s = (Return r, s1)"
    and "heap s1 ! r = stored s i"
    using ep_get_extensions_value [OF assms(2-4)] by blast
  with assms(1) show ?thesis
    by (simp add: view_eq_def view_getitem_def view_len_def)
qed

text \<open>
  C7: for a cached value with the flag off, whose owner has the registry and whose trait
  is the extension point \<open>i\<close>, in a valid state: \<^verbatim>\<open>__eq__\<close>, \<^verbatim>\<open>__getitem__\<close> and
  \<^verbatim>\<open>__len__\<close> return what comparing, indexing and measuring the list the registry
  currently holds for \<open>i\<close> gives. The backing store \<open>items v\<close> is arbitrary and does
  not occur in the results. In the witness the cached value still holds \<open>[1, 2]\<close> while
  the registry holds \<open>[9]\<close>, and the three accessors read \<open>[9]\<close>.
\<close>

theorem accessors_read_registry:
  assumes "\<not> internal_use v"
    and "trait_id (object v) (name v) = Some i" and "has_extension_registry (object v)"
    and "valid s"
  shows "fst (view_eq v other s) = Return (stored s i = other) \<and>
         fst (view_getitem v k s) = list_getitem (stored s i) k \<and>
         fst (view_len v s) = Return (length (stored s i))"
proof -
  from assms(2,3) have "ep_get_extensions (object v) (name v) s = get_extensions i s"
    by (simp add: ep_get_extensions_def)
  moreover obtain r s1 where "get_extensions i s = (Return r, s1)"
    and "heap s1 ! r = stored s i"
    using get_extensions_value [OF assms(4), of i] by blast
  ultimately show ?thesis
    using assms(1) by (simp add: view_eq_def view_getitem_def view_len_def)
qed

theorem accessors_read_registry_witness:
  "fst (update_cache example_object ''exts'' (example_registry [])) = Return example_view \<and>
   items example_view = [1, 2] \<and>
   \<not> internal_use example_view \<and>
   trait_id (object example_view) (name example_view) = Some ''x'' \<and>
   has_extension_registry (object example_view) \<and>
   valid stale_registry \<and>
   stored stale_registry ''x'' = [9] \<and>
   fst (view_eq example_view [9] stale_registry) = Return True \<and>
   fst (view_getitem example_view (Index 0) stale_registry) = Return (Item 9) \<and>
   fst (view_len example_view stale_registry) = Return 1"
proof -
  have b: "\<not> internal_use example_view"
    "trait_id (object example_view) (name example_view) = Some ''x''"
    "has_extension_registry (object example_view)"
    by (simp_all add: example_view_def example_object_def)
  have v: "valid stale_registry" by (simp add: valid_def stale_registry_eq)
  have st: "stored stale_registry ''x'' = [9]" by (simp add: stored_def stale_registry_eq)
  have u: "fst (update_cache example_object ''exts'' (example_registry [])) = Return example_view"
    by (simp add: update_cache_def ep_get_extensions_def example_object_def example_view_def
        get_extensions_stored [where a = 0] example_registry_def)
  show ?thesis
    using accessors_read_registry [OF b v, of "[9]" "Index 0"]
    by (simp add: b v st u list_getitem_def) (simp add: example_view_def)
qed

subsection \<open>Mutating the cached value directly\<close>

lemma accessors_depend_on_stored:
  assumes "\<not> internal_use v"
    and "trait_id (object v) (name v) = Some i" and "has_extension_registry (object v)"
    and "valid s" and "valid s'" and "stored s' i = stored s i"
  shows "fst (view_len v s') = fst (view_len v s)"
    and "fst (view_getitem v k s') = fst (view_getitem v k s)"
    and "fst (view_eq v other s') = fst (view_eq v other s)"
  using accessors_read_stored [OF assms(1-3) assms(4)] accessors_read_stored [OF assms(1-3) assms(5)] assms(6)
  by simp_all

lemma valid_warn: "valid (warn s) = valid s"
  by (simp add: valid_def warn_def)

lemma stored_warn: "stored (warn s) j = stored s j"
  by (simp add: stored_def warn_def split: option.splits)

lemma list_getitem_whole: "list_getitem xs (Slice None None) = Return (Items xs)"
  by (simp add: list_getitem_def slice_bound_def Let_def)

lemma rejected_warn:
  assumes "\<not> internal_use v"
    and "trait_id (object v) (name v) = Some i" and "has_extension_registry (object v)"
    and "valid s"
  shows "rejected (Return r, v, warn s) v s"
proof -
  have v: "valid (warn s)" using assms(4) by (simp add: valid_warn)
  show ?thesis
    using accessors_depend_on_stored [OF assms(1-4) v stored_warn]
    by (simp add: rejected_def stored_warn) (simp add: warn_def)
qed

lemma rejected_slice_copy:
  assumes "\<not> internal_use v"
    and "trait_id (object v) (name v) = Some i" and "has_extension_registry (object v)"
    and "valid s"
  shows "rejected (case view_getitem v (Slice None None) (warn s) of (r, s1) \<Rightarrow> (r, v, s1)) v s"
proof -
  have vw: "valid (warn s)" using assms(4) by (simp add: valid_warn)
  obtain r s1 where get: "ep_get_extensions (object v) (name v) (warn s) = (Return r, s1)"
    and v1: "valid s1" and st: "\<forall>j. stored s1 j = stored (warn s) j"
    and rest: "extension_points s1 = extension_points (warn s)" "listeners s1 = listeners (warn s)"
      "calls s1 = calls (warn s)" "warnings s1 = warnings (warn s)"
    using ep_get_extensions_value [OF assms(2,3) vw] by blast
  have st': "stored s1 i = stored s i" using st by (simp add: stored_warn)
  have res: "view_getitem v (Slice None None) (warn s) = (list_getitem (heap s1 ! r) (Slice None None), s1)"
    using assms(1) by (simp add: view_getitem_def get)
  show ?thesis
    using accessors_depend_on_stored [OF assms(1-4) v1 st'] st rest
    by (simp add: res list_getitem_whole rejected_def stored_warn) (simp add: warn_def)
qed

text \<open>
  C3: for a cached value with the flag off, whose owner has the registry and whose trait
  is an extension point, in a valid state, each of \<^verbatim>\<open>append\<close>, \<^verbatim>\<open>insert\<close>,
  \<^verbatim>\<open>remove\<close>, \<^verbatim>\<open>__setitem__\<close> (with an integer or with a slice), \<^verbatim>\<open>__iadd__\<close>,
  \<^verbatim>\<open>__imul__\<close>, \<^verbatim>\<open>clear\<close>, \<^verbatim>\<open>pop\<close>, \<^verbatim>\<open>extend\<close> and \<^verbatim>\<open>__delitem__\<close>, with any
  arguments, is rejected: it returns without raising, issues the warning, and leaves the
  value, what its accessors read, and the list the registry holds for every id as they
  were. The witness is the scenario of the spec: the value bound to \<open>x\<close>, which holds
  \<open>[1, 2]\<close>; after \<^verbatim>\<open>append(3)\<close> the value and the registry still read \<open>[1, 2]\<close>.
\<close>

theorem direct_mutation_rejected:
  assumes "\<not> internal_use v"
    and "trait_id (object v) (name v) = Some i" and "has_extension_registry (object v)"
    and "valid s"
  shows "rejected (view_append x v s) v s \<and>
         rejected (view_insert n x v s) v s \<and>
         rejected (view_remove x v s) v s \<and>
         rejected (view_setitem super_setitem k y v s) v s \<and>
         rejected (view_iadd xs v s) v s \<and>
         rejected (view_imul n v s) v s \<and>
         rejected (view_clear v s) v s \<and>
         rejected (view_pop n v s) v s \<and>
         rejected (view_extend xs v s) v s \<and>
         rejected (view_delitem super_delitem k v s) v s"
  using assms(1) rejected_warn [OF assms, of "()"] rejected_slice_copy [OF assms]
  by (simp add: view_append_def view_insert_def view_remove_def view_setitem_def view_iadd_def
      view_imul_def view_clear_def view_pop_def view_extend_def view_delitem_def)

theorem direct_mutation_rejected_witness:
  "\<not> internal_use example_view \<and>
   trait_id (object example_view) (name example_view) = Some ''x'' \<and>
   has_extension_registry (object example_view) \<and>
   valid (example_registry []) \<and>
   stored (example_registry []) ''x'' = [1, 2] \<and>
   fst (view_getitem example_view (Slice None None) (example_registry [])) = Return (Items [1, 2]) \<and>
   (\<exists>s'. view_append 3 example_view (example_registry []) = (Return (), example_view, s') \<and>
         warnings s' = [''Extension point cannot be mutated directly.''] \<and>
         items example_view = [1, 2] \<and>
         stored s' ''x'' = [1, 2] \<and>
         fst (view_getitem example_view (Slice None None) s') = Return (Items [1, 2]))"
proof -
  have b: "\<not> internal_use example_view"
    "trait_id (object example_view) (name example_view) = Some ''x''"
    "has_extension_registry (object example_view)"
    by (simp_all add: example_view_def example_object_def)
  have v: "valid (example_registry [])" by (rule valid_example)
  have st: "stored (example_registry []) ''x'' = [1, 2]"
    by (simp add: stored_def example_registry_def)
  have w: "warnings (example_registry []) = []" by (simp add: example_registry_def)
  have it: "items example_view = [1, 2]" by (simp add: example_view_def)
  have g: "fst (view_getitem example_view (Slice None None) (example_registry []))
      = Return (Items [1, 2])"
    by (simp add: view_getitem_def ep_get_extensions_def example_object_def example_view_def
        get_extensions_stored [where a = 0] list_getitem_whole example_registry_def)
  have "rejected (view_append 3 example_view (example_registry [])) example_view (example_registry [])"
    using direct_mutation_rejected [OF b v, of 3] by simp
  then show ?thesis
    by (simp add: rejected_def view_append_def b v st w it g)
qed

section \<open>Ids that are not extension points\<close>

subsection \<open>The invariant of reachable states\<close>

lemma seen_append: "seen (cs @ ds) = seen cs \<union> seen ds"
  by (simp add: seen_def)

lemma seen_map: "seen (map (\<lambda>l. (l, ev)) ls) \<subseteq> {added ev, removed ev}"
  by (induction ls) (auto simp add: seen_def)

lemma inv_init: "private_inv {} (empty_registry al)"
  by (simp add: private_inv_def valid_def empty_registry_def seen_def)

lemma inv_new_list: "private_inv K s \<Longrightarrow> private_inv (insert (fst (alloc xs s)) K) (snd (alloc xs s))"
  unfolding private_inv_def valid_def alloc_def
  by (auto simp add: nth_append less_Suc_eq)

lemma inv_mutate_list: "private_inv K s \<Longrightarrow> a \<in> K \<Longrightarrow> private_inv K (s\<lparr>heap := (heap s)[a := xs]\<rparr>)"
  unfolding private_inv_def valid_def
  by (auto simp add: nth_list_update)

lemma inv_alive: "private_inv K s \<Longrightarrow> private_inv K (s\<lparr>alive := al\<rparr>)"
  unfolding private_inv_def valid_def by simp

lemma inv_warn: "private_inv K s \<Longrightarrow> private_inv K (warn s)"
  unfolding private_inv_def valid_def warn_def by simp

lemma inv_add_listener: "private_inv K s \<Longrightarrow> private_inv K (snd (add_extension_point_listener l k s))"
  unfolding private_inv_def valid_def add_extension_point_listener_def by simp

lemma inv_remove_listener: "private_inv K s \<Longrightarrow> private_inv K (snd (remove_extension_point_listener l k s))"
  unfolding private_inv_def valid_def remove_extension_point_listener_def by (simp add: Let_def)

lemma inv_add: "private_inv K s \<Longrightarrow> private_inv K (snd (add_extension_point d s))"
  unfolding private_inv_def valid_def add_extension_point_def by auto

lemma inv_get:
  assumes "private_inv K s" and "get_extensions i s = (Return r, s')"
  shows "private_inv (insert r K) s'"
proof (cases "extensions s i")
  case None
  have r: "r = Suc (length (heap s))"
    and s': "s' = s\<lparr>heap := heap s @ [[], []], extensions := (extensions s)(i \<mapsto> length (heap s))\<rparr>"
    using assms(2) by (simp_all add: get_extensions_unstored [OF None])
  show ?thesis
    using assms(1) None unfolding r s' private_inv_def valid_def
    by (auto simp add: nth_append less_Suc_eq)
next
  case (Some a)
  have r: "r = length (heap s)" and s': "s' = s\<lparr>heap := heap s @ [heap s ! a]\<rparr>"
    using assms(2) by (simp_all add: get_extensions_stored [OF Some])
  show ?thesis
    using assms(1) Some unfolding r s' private_inv_def valid_def
    by (auto simp add: nth_append less_Suc_eq)
qed

lemma set_extensions_unknown:
  "extension_points s i = None \<Longrightarrow> set_extensions i a s = (Raise (UnknownExtensionPoint i), s)"
  by (simp add: set_extensions_def check_extension_point_def dom_def)

lemma remove_extension_point_unknown:
  "extension_points s i = None \<Longrightarrow> remove_extension_point i s = (Raise (UnknownExtensionPoint i), s)"
  by (simp add: remove_extension_point_def check_extension_point_def dom_def)

lemma inv_unchanged: "private_inv K s \<Longrightarrow> private_inv (K \<union> seen (calls s)) s"
  by (simp add: private_inv_def Un_absorb2)

lemma private_invI:
  assumes "\<And>j b. extensions s j = Some b \<Longrightarrow> b < length (heap s)"
    and "\<And>a. a \<in> K \<Longrightarrow> a < length (heap s)"
    and "\<And>j b. extensions s j = Some b \<Longrightarrow> extension_points s j = None \<Longrightarrow> heap s ! b = [] \<and> b \<notin> K"
    and "\<And>j j' b. extensions s j = Some b \<Longrightarrow> extensions s j' = Some b \<Longrightarrow> b \<notin> K \<Longrightarrow> j = j'"
    and "seen (calls s) \<subseteq> K"
  shows "private_inv K s"
  unfolding private_inv_def valid_def using assms by blast

lemma inv_valid: "private_inv K s \<Longrightarrow> extensions s j = Some b \<Longrightarrow> b < length (heap s)"
  unfolding private_inv_def valid_def by blast

lemma inv_known: "private_inv K s \<Longrightarrow> a \<in> K \<Longrightarrow> a < length (heap s)"
  unfolding private_inv_def by blast

lemma inv_private:
  "private_inv K s \<Longrightarrow> extensions s j = Some b \<Longrightarrow> extension_points s j = None \<Longrightarrow>
     heap s ! b = [] \<and> b \<notin> K"
  unfolding private_inv_def by blast

lemma inv_unshared:
  "private_inv K s \<Longrightarrow> extensions s j = Some b \<Longrightarrow> extensions s j' = Some b \<Longrightarrow> b \<notin> K \<Longrightarrow>
     j = j'"
  unfolding private_inv_def by blast

lemma inv_seen: "private_inv K s \<Longrightarrow> seen (calls s) \<subseteq> K"
  unfolding private_inv_def by blast

lemma seen_dispatch:
  assumes "seen cs \<subseteq> K"
  shows "K \<union> seen (cs @ map (\<lambda>l. (l, ev)) ls) \<subseteq> K \<union> {added ev, removed ev}"
  using assms seen_map [of ev ls] by (auto simp add: seen_append)

lemma inv_set:
  assumes inv: "private_inv K s" and a: "a \<in> K"
  shows "private_inv (K \<union> seen (calls (snd (set_extensions i a s)))) (snd (set_extensions i a s))"
proof (cases "extension_points s i")
  case None
  show ?thesis
    using inv_unchanged [OF inv] by (simp add: set_extensions_unknown [OF None])
next
  case (Some d)
  note reg = Some
  let ?s' = "snd (set_extensions i a s)"
  let ?K' = "K \<union> seen (calls ?s')"
  obtain old ys where heap': "heap ?s' = heap s @ ys"
    and ext': "extensions ?s' = (extensions s)(i \<mapsto> a)"
    and pts': "extension_points ?s' = extension_points s"
    and K': "?K' \<subseteq> insert old K"
    and old: "extensions s i = Some old \<or> (extensions s i = None \<and> old = length (heap s) \<and> ys = [[]])"
  proof (cases "extensions s i")
    case None
    show ?thesis
      using seen_dispatch [OF inv_seen [OF inv], where ev = "\<lparr>extension_point_id = i, added = a, removed = length (heap s), index = None\<rparr>"] a None
      by (intro that [of "[[]]" "length (heap s)"])
        (auto simp add: set_extensions_unstored [OF reg None])
  next
    case (Some old)
    show ?thesis
      using seen_dispatch [OF inv_seen [OF inv], where ev = "\<lparr>extension_point_id = i, added = a, removed = old, index = None\<rparr>"] a Some
      by (intro that [of "[]" old])
        (auto simp add: set_extensions_stored [OF reg Some])
  qed
  have len: "length (heap s) \<le> length (heap ?s')" by (simp add: heap')
  have nth: "b < length (heap s) \<Longrightarrow> heap ?s' ! b = heap s ! b" for b
    by (simp add: heap' nth_append)
  have old_lt: "old < length (heap ?s')"
    using old inv_valid [OF inv, of i old] by (auto simp add: heap')
  show ?thesis
  proof (rule private_invI)
    fix j b assume "extensions ?s' j = Some b"
    then show "b < length (heap ?s')"
      using inv_valid [OF inv, of j b] inv_known [OF inv a] len
      by (auto simp add: ext' split: if_splits)
  next
    fix x assume "x \<in> ?K'"
    then have "x = old \<or> x \<in> K" using K' by blast
    then show "x < length (heap ?s')"
      using old_lt inv_known [OF inv, of x] len by auto
  next
    fix j b assume e: "extensions ?s' j = Some b" and p: "extension_points ?s' j = None"
    have ji: "j \<noteq> i" using p reg by (auto simp add: pts')
    then have ej: "extensions s j = Some b" using e by (simp add: ext')
    have pj: "extension_points s j = None" using p by (simp add: pts')
    have b: "heap s ! b = [] \<and> b \<notin> K" by (rule inv_private [OF inv ej pj])
    have "b \<noteq> old"
    proof
      assume "b = old"
      with old ej inv_valid [OF inv ej] have "extensions s i = Some b" by auto
      from inv_unshared [OF inv this ej] b ji show False by simp
    qed
    with b K' have "b \<notin> ?K'" by blast
    with b nth [OF inv_valid [OF inv ej]] show "heap ?s' ! b = [] \<and> b \<notin> ?K'" by simp
  next
    fix j j' b
    assume e: "extensions ?s' j = Some b" and e': "extensions ?s' j' = Some b" and n: "b \<notin> ?K'"
    have nK: "b \<notin> K" using n by blast
    then have "b \<noteq> a" using a by blast
    then have "j \<noteq> i" "j' \<noteq> i" using e e' by (auto simp add: ext')
    then have "extensions s j = Some b" "extensions s j' = Some b"
      using e e' by (simp_all add: ext')
    then show "j = j'" using nK by (rule inv_unshared [OF inv])
  next
    show "seen (calls ?s') \<subseteq> ?K'" by blast
  qed
qed

lemma seen_dispatch':
  assumes "seen cs \<subseteq> K"
  shows "K \<union> seen (cs @ map (\<lambda>l. (l, ev)) ls) \<subseteq> insert (added ev) (insert (removed ev) K)"
  using seen_dispatch [OF assms, of ev ls] by blast

lemma inv_remove:
  assumes inv: "private_inv K s"
  shows "private_inv (K \<union> seen (calls (snd (remove_extension_point i s))))
           (snd (remove_extension_point i s))"
proof (cases "extension_points s i")
  case None
  show ?thesis
    using inv_unchanged [OF inv] by (simp add: remove_extension_point_unknown [OF None])
next
  case (Some d)
  note reg = Some
  let ?s' = "snd (remove_extension_point i s)"
  let ?K' = "K \<union> seen (calls ?s')"
  let ?n = "length (heap s)"
  obtain old new ys where heap': "heap ?s' = heap s @ ys"
    and ext': "extensions ?s' = (extensions s)(i := None)"
    and pts': "extension_points ?s' = (extension_points s)(i := None)"
    and K': "?K' \<subseteq> insert new (insert old K)"
    and new: "?n \<le> new" "new < length (heap ?s')"
    and old: "extensions s i = Some old \<or> (?n \<le> old \<and> old < length (heap ?s'))"
  proof (cases "extensions s i")
    case None
    show ?thesis
      using seen_dispatch' [OF inv_seen [OF inv], where ev = "\<lparr>extension_point_id = i, added = Suc ?n, removed = ?n, index = Some 0\<rparr>"] None
      by (intro that [of "[[], []]" "Suc ?n" ?n])
        (auto simp add: remove_extension_point_unstored [OF reg None])
  next
    case (Some old)
    show ?thesis
      using seen_dispatch' [OF inv_seen [OF inv], where ev = "\<lparr>extension_point_id = i, added = ?n, removed = old, index = Some 0\<rparr>"] Some
      by (intro that [of "[[]]" ?n old])
        (auto simp add: remove_extension_point_stored [OF reg Some])
  qed
  have len: "?n \<le> length (heap ?s')" by (simp add: heap')
  have nth: "b < ?n \<Longrightarrow> heap ?s' ! b = heap s ! b" for b
    by (simp add: heap' nth_append)
  have old_lt: "old < length (heap ?s')"
    using old inv_valid [OF inv, of i old] len by auto
  show ?thesis
  proof (rule private_invI)
    fix j b assume "extensions ?s' j = Some b"
    then show "b < length (heap ?s')"
      using inv_valid [OF inv, of j b] len
      by (auto simp add: ext' split: if_splits)
  next
    fix x assume "x \<in> ?K'"
    then have "x = new \<or> x = old \<or> x \<in> K" using K' by blast
    then show "x < length (heap ?s')"
      using old_lt new inv_known [OF inv, of x] len by auto
  next
    fix j b assume e: "extensions ?s' j = Some b" and p: "extension_points ?s' j = None"
    have ji: "j \<noteq> i" using e by (auto simp add: ext')
    then have ej: "extensions s j = Some b" using e by (simp add: ext')
    have pj: "extension_points s j = None" using p ji by (simp add: pts')
    have b: "heap s ! b = [] \<and> b \<notin> K" by (rule inv_private [OF inv ej pj])
    have lt: "b < ?n" by (rule inv_valid [OF inv ej])
    have "b \<noteq> old"
    proof
      assume "b = old"
      with old ej lt have "extensions s i = Some b" by auto
      from inv_unshared [OF inv this ej] b ji show False by simp
    qed
    moreover have "b \<noteq> new" using lt new by simp
    ultimately have "b \<notin> ?K'" using b K' by blast
    with b nth [OF lt] show "heap ?s' ! b = [] \<and> b \<notin> ?K'" by simp
  next
    fix j j' b
    assume e: "extensions ?s' j = Some b" and e': "extensions ?s' j' = Some b" and n: "b \<notin> ?K'"
    have nK: "b \<notin> K" using n by blast
    have "j \<noteq> i" "j' \<noteq> i" using e e' by (auto simp add: ext')
    then have "extensions s j = Some b" "extensions s j' = Some b"
      using e e' by (simp_all add: ext')
    then show "j = j'" using nK by (rule inv_unshared [OF inv])
  next
    show "seen (calls ?s') \<subseteq> ?K'" by blast
  qed
qed

lemma reach_inv: "reach K s \<Longrightarrow> private_inv K s"
proof (induction rule: reach.induct)
  case (reach_init al)
  show ?case by (rule inv_init)
next
  case (reach_get K s i r s')
  then show ?case by (simp add: inv_get)
qed (simp_all add: inv_new_list inv_mutate_list inv_alive inv_warn inv_add_listener
      inv_remove_listener inv_add inv_set inv_remove)

lemma reach_valid: "reach K s \<Longrightarrow> valid s"
  using reach_inv [of K s] by (simp add: private_inv_def)

lemma reach_removed_registry: "\<exists>K. reach K removed_registry"
proof -
  let ?s0 = "empty_registry (\<lambda>l. True) :: (string, nat, string) state"
  have "reach {} ?s0" by (rule reach_init)
  then have "reach (insert (fst (alloc [1, 2] ?s0)) {}) (snd (alloc [1, 2] ?s0))"
    by (rule reach_new_list)
  then have 1: "reach {0} (snd (alloc [1, 2] ?s0))"
    by (simp add: alloc_def empty_registry_def)
  have 2: "reach {0} (snd (add_extension_point \<lparr>ep_id = ''x'', desc = []\<rparr> (snd (alloc [1, 2] ?s0))))"
    by (rule reach_add [OF 1])
  have "0 \<in> {0::nat}" by simp
  from reach_remove [OF reach_set [OF 2 this]] show ?thesis
    unfolding removed_registry_def by blast
qed

subsection \<open>Strict writes, permissive reads\<close>

text \<open>
  C4: in every reachable state, for an id that is not a key of the extension points,
  \<^verbatim>\<open>set_extensions(id, v)\<close> raises \<^verbatim>\<open>UnknownExtensionPoint\<close> for that id and leaves the
  whole state as it was, so nothing is stored; and \<^verbatim>\<open>get_extensions(id)\<close> returns, and
  the list it returns is empty.
\<close>

theorem unknown_id_strict_write_permissive_read:
  assumes "reach K s" and "extension_points s i = None"
  shows "set_extensions i a s = (Raise (UnknownExtensionPoint i), s) \<and>
         (\<exists>r s'. get_extensions i s = (Return r, s') \<and> heap s' ! r = [])"
proof -
  have inv: "private_inv K s" by (rule reach_inv [OF assms(1)])
  have "\<exists>r s'. get_extensions i s = (Return r, s') \<and> heap s' ! r = []"
  proof (cases "extensions s i")
    case None
    then show ?thesis by (simp add: get_extensions_unstored nth_append)
  next
    case (Some b)
    from inv_private [OF inv Some assms(2)] inv_valid [OF inv Some]
    show ?thesis by (simp add: get_extensions_stored [OF Some] nth_append)
  qed
  then show ?thesis by (simp add: set_extensions_unknown [OF assms(2)])
qed

theorem unknown_id_strict_write_permissive_read_witness:
  "extension_points removed_registry ''x'' = None \<and>
   set_extensions ''x'' 0 removed_registry = (Raise (UnknownExtensionPoint ''x''), removed_registry) \<and>
   (\<exists>r s'. get_extensions ''x'' removed_registry = (Return r, s') \<and> heap s' ! r = [])"
proof -
  obtain K where r: "reach K removed_registry" using reach_removed_registry by blast
  have p: "extension_points removed_registry ''x'' = None"
    by (simp add: removed_registry_def remove_extension_point_def set_extensions_def
        add_extension_point_def check_extension_point_def alloc_def empty_registry_def
        protected_get_extensions_def call_listeners_def call_each_eq Let_def)
  show ?thesis
    using unknown_id_strict_write_permissive_read [OF r p, of 0] p by simp
qed

end
